theory Spec2Isabelle
  imports Main "HOL-Library.Sublist" "HOL-Library.AList"
begin

section \<open>Strings of the two languages\<close>

text \<open>
  The dashboard is one Python file (\<^verbatim>\<open>src/app.py\<close>): a Flask server, and a page whose
  script (JavaScript, inside the \<^verbatim>\<open>HTML\<close> string of the same file) holds the prompt
  codec and the two automation loops. Both languages are embedded here.

  A string is a \<^typ>\<open>string\<close>; a character stands for the code point of the same
  number, so the development covers texts whose code points are below 256. The
  white space sets below are the ones of the two languages on that range:
  JavaScript's \<^verbatim>\<open>trim\<close> and \<^verbatim>\<open>\s\<close> (TAB, LF, VT, FF, CR, SP, NBSP) and Python's
  \<^verbatim>\<open>str.strip\<close> (the same and FS, GS, RS, US, NEL).
\<close>

definition js_space :: "char \<Rightarrow> bool" where
  "js_space c = (c = CHR 0x09 \<or> c = CHR 0x0A \<or> c = CHR 0x0B \<or> c = CHR 0x0C \<or>
     c = CHR 0x0D \<or> c = CHR 0x20 \<or> c = CHR 0xA0)"

definition js_line_terminator :: "char \<Rightarrow> bool" where
  "js_line_terminator c = (c = CHR 0x0A \<or> c = CHR 0x0D)"

definition js_trim :: "string \<Rightarrow> string" where
  "js_trim s = rev (dropWhile js_space (rev (dropWhile js_space s)))"

definition py_space :: "char \<Rightarrow> bool" where
  "py_space c = (c = CHR 0x09 \<or> c = CHR 0x0A \<or> c = CHR 0x0B \<or> c = CHR 0x0C \<or>
     c = CHR 0x0D \<or> c = CHR 0x1C \<or> c = CHR 0x1D \<or> c = CHR 0x1E \<or> c = CHR 0x1F \<or>
     c = CHR 0x20 \<or> c = CHR 0x85 \<or> c = CHR 0xA0)"

definition py_strip :: "string \<Rightarrow> string" where
  "py_strip s = rev (dropWhile py_space (rev (dropWhile py_space s)))"

text \<open>Python's \<^verbatim>\<open>str.splitlines\<close>: the line boundaries below 256, CR LF being one.\<close>

definition py_linebreak :: "char \<Rightarrow> bool" where
  "py_linebreak c = (c = CHR 0x0A \<or> c = CHR 0x0B \<or> c = CHR 0x0C \<or> c = CHR 0x0D \<or>
     c = CHR 0x1C \<or> c = CHR 0x1D \<or> c = CHR 0x1E \<or> c = CHR 0x85)"

fun splitlines_from :: "string \<Rightarrow> string \<Rightarrow> string list" where
  "splitlines_from acc [] = (if acc = [] then [] else [rev acc])"
| "splitlines_from acc [c] = (if py_linebreak c then [rev acc] else [rev (c # acc)])"
| "splitlines_from acc (c # d # cs) =
     (if c = CHR 0x0D \<and> d = CHR 0x0A then rev acc # splitlines_from [] cs
      else if py_linebreak c then rev acc # splitlines_from [] (d # cs)
      else splitlines_from (c # acc) (d # cs))"

definition py_splitlines :: "string \<Rightarrow> string list" where
  "py_splitlines s = splitlines_from [] s"

text \<open>
  Python's \<^verbatim>\<open>s.split(c, 1)\<close> for a separator of one character: the text before the
  first \<^verbatim>\<open>c\<close> and the text after it, or \<^verbatim>\<open>s\<close> alone when \<^verbatim>\<open>c\<close> is not in \<^verbatim>\<open>s\<close>.
\<close>

definition py_split1 :: "string \<Rightarrow> char \<Rightarrow> string list" where
  "py_split1 s c =
     (if c \<in> set s then [takeWhile (\<lambda>x. x \<noteq> c) s, tl (dropWhile (\<lambda>x. x \<noteq> c) s)] else [s])"

text \<open>Python's \<^verbatim>\<open>str.lower\<close> below 256: A to Z, and the capital letters of Latin-1.\<close>

definition upper_letters :: string where
  "upper_letters = ''ABCDEFGHIJKLMNOPQRSTUVWXYZ'' @
     [CHR 0xC0, CHR 0xC1, CHR 0xC2, CHR 0xC3, CHR 0xC4, CHR 0xC5, CHR 0xC6, CHR 0xC7,
      CHR 0xC8, CHR 0xC9, CHR 0xCA, CHR 0xCB, CHR 0xCC, CHR 0xCD, CHR 0xCE, CHR 0xCF,
      CHR 0xD0, CHR 0xD1, CHR 0xD2, CHR 0xD3, CHR 0xD4, CHR 0xD5, CHR 0xD6,
      CHR 0xD8, CHR 0xD9, CHR 0xDA, CHR 0xDB, CHR 0xDC, CHR 0xDD, CHR 0xDE]"

definition lower_letters :: string where
  "lower_letters = ''abcdefghijklmnopqrstuvwxyz'' @
     [CHR 0xE0, CHR 0xE1, CHR 0xE2, CHR 0xE3, CHR 0xE4, CHR 0xE5, CHR 0xE6, CHR 0xE7,
      CHR 0xE8, CHR 0xE9, CHR 0xEA, CHR 0xEB, CHR 0xEC, CHR 0xED, CHR 0xEE, CHR 0xEF,
      CHR 0xF0, CHR 0xF1, CHR 0xF2, CHR 0xF3, CHR 0xF4, CHR 0xF5, CHR 0xF6,
      CHR 0xF8, CHR 0xF9, CHR 0xFA, CHR 0xFB, CHR 0xFC, CHR 0xFD, CHR 0xFE]"

definition py_lower_char :: "char \<Rightarrow> char" where
  "py_lower_char c = (case map_of (zip upper_letters lower_letters) c of Some d \<Rightarrow> d | None \<Rightarrow> c)"

definition py_lower :: "string \<Rightarrow> string" where
  "py_lower s = map py_lower_char s"

text \<open>
  JavaScript's \<^verbatim>\<open>s.indexOf(sub)\<close> (\<^verbatim>\<open>None\<close> for -1), \<^verbatim>\<open>s.includes(sub)\<close>, and
  \<^verbatim>\<open>s.split(sep)\<close>: the pieces between the occurrences of \<^verbatim>\<open>sep\<close>, each occurrence
  searched from the end of the one before; an empty separator gives the characters.
  \<^verbatim>\<open>s.split(sep, n)\<close> keeps the first \<^verbatim>\<open>n\<close> pieces of that list and drops the rest.
\<close>

fun indexOf :: "string \<Rightarrow> string \<Rightarrow> nat option" where
  "indexOf [] sub = (if sub = [] then Some 0 else None)"
| "indexOf (c # cs) sub =
     (if prefix sub (c # cs) then Some 0 else map_option Suc (indexOf cs sub))"

definition str_includes :: "string \<Rightarrow> string \<Rightarrow> bool" where
  "str_includes s sub = (indexOf s sub \<noteq> None)"

lemma indexOf_bound: "indexOf s sub = Some i \<Longrightarrow> i + length sub \<le> length s"
proof (induction s arbitrary: i)
  case Nil
  then show ?case by (simp split: if_splits)
next
  case (Cons c cs)
  show ?case
  proof (cases "prefix sub (c # cs)")
    case True
    with Cons.prems have "i = 0" by simp
    with True show ?thesis using prefix_length_le by fastforce
  next
    case False
    with Cons.prems obtain j where "indexOf cs sub = Some j" "i = Suc j" by auto
    with Cons.IH show ?thesis by fastforce
  qed
qed

function js_split :: "string \<Rightarrow> string \<Rightarrow> string list" where
  "js_split s sep =
     (if sep = [] then map (\<lambda>c. [c]) s
      else case indexOf s sep of
             None \<Rightarrow> [s]
           | Some i \<Rightarrow> take i s # js_split (drop (i + length sep) s) sep)"
  by pat_completeness auto
termination
proof (relation "measure (\<lambda>(s, sep). length s)")
  show "wf (measure (\<lambda>(s, sep). length s))" by simp
next
  fix s sep :: string and i
  assume sep: "sep \<noteq> []" and found: "indexOf s sep = Some i"
  from indexOf_bound [OF found] have "i + length sep \<le> length s" .
  with sep have "length s - (i + length sep) < length s"
    by (cases sep) auto
  then show "((drop (i + length sep) s, sep), (s, sep)) \<in> measure (\<lambda>(s, sep). length s)"
    by simp
qed

declare js_split.simps [simp del]

definition js_split_limit :: "string \<Rightarrow> string \<Rightarrow> nat \<Rightarrow> string list" where
  "js_split_limit s sep n = take n (js_split s sep)"

text \<open>\<^verbatim>\<open>xs[i] || ""\<close>: the element, or the empty string where the index is out of range.\<close>

definition js_at_or_empty :: "string list \<Rightarrow> nat \<Rightarrow> string" where
  "js_at_or_empty xs i = (if i < length xs then xs ! i else [])"

text \<open>
  The regular expressions of \<^verbatim>\<open>getRecipientFromPrompt\<close> have the shape
  \<^verbatim>\<open>/LABEL\s*(.*)/i\<close>. The label is matched at the leftmost position where it stands,
  letters compared without case (the labels are ASCII, and a character from 128 on never
  matches an ASCII letter); \<^verbatim>\<open>\s*\<close> then takes all the white space that follows, line
  breaks included; and the group takes the characters up to the next line terminator.
  \<^verbatim>\<open>match_label\<close> gives the group, or \<^verbatim>\<open>None\<close> when the label is nowhere.
\<close>

definition ascii_upper :: "char \<Rightarrow> char" where
  "ascii_upper c =
     (case map_of (zip ''abcdefghijklmnopqrstuvwxyz'' ''ABCDEFGHIJKLMNOPQRSTUVWXYZ'') c of
        Some d \<Rightarrow> d | None \<Rightarrow> c)"

fun ci_prefix :: "string \<Rightarrow> string \<Rightarrow> bool" where
  "ci_prefix [] s = True"
| "ci_prefix (p # ps) [] = False"
| "ci_prefix (p # ps) (c # cs) = (ascii_upper p = ascii_upper c \<and> ci_prefix ps cs)"

definition after_label :: "string \<Rightarrow> string \<Rightarrow> string" where
  "after_label lab s =
     takeWhile (\<lambda>x. \<not> js_line_terminator x) (dropWhile js_space (drop (length lab) s))"

fun match_label :: "string \<Rightarrow> string \<Rightarrow> string option" where
  "match_label lab [] = (if lab = [] then Some [] else None)"
| "match_label lab (c # cs) =
     (if ci_prefix lab (c # cs) then Some (after_label lab (c # cs)) else match_label lab cs)"

section \<open>The prompt document codec (the page's script)\<close>

definition DIVIDER :: string where
  "DIVIDER = ''\<newline>\<newline>--- CAMPAIGN PROMPT ---\<newline>''"

definition STARTER :: string where
  "STARTER = ''Write a short, friendly outreach email offering a free 10 minute Facebook page review and 3 quick improvements. Keep it under 120 words. Close with a simple question asking if they want me to send the 3 improvements.''"

text \<open>
  The functions of the script read and write the text area \<^verbatim>\<open>prompt\<close>; here the text
  is an argument and the new text the result.
\<close>

definition getCampaignPrompt :: "string \<Rightarrow> string" where
  "getCampaignPrompt full =
     (if str_includes full DIVIDER then js_at_or_empty (js_split_limit full DIVIDER 2) 1
      else [])"

record recipient =
  r_email :: string
  r_name :: string

definition getRecipientFromPrompt :: "string \<Rightarrow> recipient" where
  "getRecipientFromPrompt full =
     \<lparr> r_email = (case match_label ''Recipient Email:'' full of
                    Some v \<Rightarrow> js_trim v | None \<Rightarrow> []),
       r_name = (case match_label ''Prospect Name:'' full of
                    Some v \<Rightarrow> js_trim v | None \<Rightarrow> []) \<rparr>"

definition ensureCampaignPromptExists :: "string \<Rightarrow> string" where
  "ensureCampaignPromptExists full =
     (if str_includes full DIVIDER then full
      else ''Recipient Email: \<newline>Prospect Name: '' @ DIVIDER @ STARTER)"

definition setRecipientLines :: "string \<Rightarrow> string \<Rightarrow> string \<Rightarrow> string" where
  "setRecipientLines full email name =
     (let full1 = ensureCampaignPromptExists full;
          campaign = js_trim (getCampaignPrompt full1)
      in ''Recipient Email: '' @ email @ ''\<newline>Prospect Name: '' @ name @ DIVIDER @ campaign)"

definition setCampaignPromptOnly :: "string \<Rightarrow> string \<Rightarrow> string" where
  "setCampaignPromptOnly full campaignText =
     (let full1 = ensureCampaignPromptExists full;
          r = getRecipientFromPrompt full1
      in ''Recipient Email: '' @ r_email r @ ''\<newline>Prospect Name: '' @ r_name r @ DIVIDER
           @ js_trim campaignText)"

subsection \<open>Occurrences of a separator\<close>

lemma indexOf_None_iff: "indexOf s sub = None \<longleftrightarrow> \<not> sublist sub s"
  by (induction s) (auto simp: sublist_Cons_right)

lemma indexOf_self: "sub \<noteq> [] \<Longrightarrow> indexOf (sub @ c) sub = Some 0"
  by (cases sub) auto

lemma indexOf_take_None:
  "sub \<noteq> [] \<Longrightarrow> indexOf s sub = Some i \<Longrightarrow> indexOf (take i s) sub = None"
proof (induction s arbitrary: i)
  case Nil
  then show ?case by simp
next
  case (Cons c cs)
  show ?case
  proof (cases "prefix sub (c # cs)")
    case True
    with Cons.prems show ?thesis by simp
  next
    case False
    with Cons.prems obtain j where j: "indexOf cs sub = Some j" "i = Suc j" by auto
    have "\<not> prefix sub (c # take j cs)"
    proof
      assume "prefix sub (c # take j cs)"
      moreover have "prefix (c # take j cs) (c # cs)" by (simp add: take_is_prefix)
      ultimately have "prefix sub (c # cs)" by (rule prefix_order.trans)
      with False show False by simp
    qed
    with j Cons.IH[OF Cons.prems(1) j(1)] show ?thesis by simp
  qed
qed

lemma indexOf_skip:
  "sub \<noteq> [] \<Longrightarrow> hd sub \<notin> set h \<Longrightarrow>
     indexOf (h @ s) sub = map_option (\<lambda>i. length h + i) (indexOf s sub)"
proof (induction h)
  case Nil
  then show ?case by (simp add: option.map_ident)
next
  case (Cons a h)
  then have "\<not> prefix sub (a # h @ s)"
    by (cases sub) auto
  with Cons show ?case by (simp add: option.map_comp comp_def)
qed

lemma js_trim_sublist: "sublist (js_trim s) s"
proof -
  have "sublist (dropWhile js_space (rev (dropWhile js_space s))) (rev (dropWhile js_space s))"
    by (rule sublist_dropWhile)
  then have "sublist (js_trim s) (dropWhile js_space s)"
    by (simp add: js_trim_def sublist_rev_left)
  moreover have "sublist (dropWhile js_space s) s" by (rule sublist_dropWhile)
  ultimately show ?thesis by (rule sublist_order.order.trans)
qed

lemma js_split_found:
  "sep \<noteq> [] \<Longrightarrow> indexOf s sep = Some i \<Longrightarrow>
     js_split s sep = take i s # js_split (drop (i + length sep) s) sep"
  by (subst js_split.simps) simp

lemma js_split_hd:
  "sep \<noteq> [] \<Longrightarrow>
     \<exists>rest. js_split s sep = (case indexOf s sep of None \<Rightarrow> s | Some j \<Rightarrow> take j s) # rest"
  by (subst js_split.simps) (simp split: option.splits)

lemma DIVIDER_nonempty: "DIVIDER \<noteq> []"
  by (simp add: DIVIDER_def)

lemma DIVIDER_hd: "hd DIVIDER = CHR 0x0A"
  by (simp add: DIVIDER_def)

lemma DIVIDER_not_prefix: "\<not> prefix DIVIDER (CHR 0x0A # CHR ''P'' # xs)"
  by (simp add: DIVIDER_def)

subsection \<open>What \<^verbatim>\<open>getCampaignPrompt\<close> returns\<close>

lemma getCampaignPrompt_found:
  assumes "indexOf full DIVIDER = Some i"
  shows "getCampaignPrompt full =
     (case indexOf (drop (i + length DIVIDER) full) DIVIDER of
        None \<Rightarrow> drop (i + length DIVIDER) full
      | Some j \<Rightarrow> take j (drop (i + length DIVIDER) full))"
proof -
  obtain rest where "js_split (drop (i + length DIVIDER) full) DIVIDER =
     (case indexOf (drop (i + length DIVIDER) full) DIVIDER of
        None \<Rightarrow> drop (i + length DIVIDER) full
      | Some j \<Rightarrow> take j (drop (i + length DIVIDER) full)) # rest"
    using js_split_hd [OF DIVIDER_nonempty] by blast
  with assms show ?thesis
    by (simp add: getCampaignPrompt_def str_includes_def js_split_limit_def js_at_or_empty_def
        js_split_found [OF DIVIDER_nonempty assms])
qed

lemma getCampaignPrompt_absent:
  "indexOf full DIVIDER = None \<Longrightarrow> getCampaignPrompt full = []"
  by (simp add: getCampaignPrompt_def str_includes_def)

lemma getCampaignPrompt_no_divider: "\<not> sublist DIVIDER (getCampaignPrompt full)"
proof (cases "indexOf full DIVIDER")
  case None
  then show ?thesis by (simp add: getCampaignPrompt_absent DIVIDER_nonempty)
next
  case (Some i)
  let ?r = "drop (i + length DIVIDER) full"
  show ?thesis
  proof (cases "indexOf ?r DIVIDER")
    case None
    then have "getCampaignPrompt full = ?r"
      by (simp add: getCampaignPrompt_found [OF Some])
    moreover from None have "\<not> sublist DIVIDER ?r"
      by (simp add: indexOf_None_iff)
    ultimately show ?thesis by simp
  next
    case inner: (Some j)
    then have "getCampaignPrompt full = take j ?r"
      by (simp add: getCampaignPrompt_found [OF Some])
    moreover from indexOf_take_None [OF DIVIDER_nonempty inner]
    have "\<not> sublist DIVIDER (take j ?r)"
      by (simp add: indexOf_None_iff)
    ultimately show ?thesis by simp
  qed
qed

lemma header_indexOf:
  assumes "CHR 0x0A \<notin> set email" "CHR 0x0A \<notin> set name"
  shows "indexOf ((''Recipient Email: '' @ email @ ''\<newline>Prospect Name: '' @ name) @ DIVIDER @ c)
           DIVIDER
         = Some (length (''Recipient Email: '' @ email @ ''\<newline>Prospect Name: '' @ name))"
proof -
  let ?h1 = "''Recipient Email: '' @ email"
  let ?h2 = "''rospect Name: '' @ name"
  have h1: "hd DIVIDER \<notin> set ?h1" using assms by (simp add: DIVIDER_hd)
  have h2: "hd DIVIDER \<notin> set ?h2" using assms by (simp add: DIVIDER_hd)
  have "indexOf (?h2 @ DIVIDER @ c) DIVIDER = Some (length ?h2)"
    using indexOf_skip [OF DIVIDER_nonempty h2, of "DIVIDER @ c"]
    by (simp add: indexOf_self [OF DIVIDER_nonempty])
  then have "indexOf (CHR ''P'' # ?h2 @ DIVIDER @ c) DIVIDER = Some (Suc (length ?h2))"
    by (simp add: DIVIDER_def)
  then have "indexOf (CHR 0x0A # CHR ''P'' # ?h2 @ DIVIDER @ c) DIVIDER
      = Some (Suc (Suc (length ?h2)))"
    using DIVIDER_not_prefix by simp
  then have "indexOf (?h1 @ CHR 0x0A # CHR ''P'' # ?h2 @ DIVIDER @ c) DIVIDER
      = Some (length ?h1 + Suc (Suc (length ?h2)))"
    using indexOf_skip [OF DIVIDER_nonempty h1, of "CHR 0x0A # CHR ''P'' # ?h2 @ DIVIDER @ c"]
    by simp
  then show ?thesis by simp
qed

lemma getCampaignPrompt_rebuilt:
  assumes "CHR 0x0A \<notin> set email" "CHR 0x0A \<notin> set name" "\<not> sublist DIVIDER c"
  shows "getCampaignPrompt
           (''Recipient Email: '' @ email @ ''\<newline>Prospect Name: '' @ name @ DIVIDER @ c) = c"
proof -
  define h where "h = ''Recipient Email: '' @ email @ ''\<newline>Prospect Name: '' @ name"
  have idx: "indexOf (h @ DIVIDER @ c) DIVIDER = Some (length h)"
    unfolding h_def by (rule header_indexOf [OF assms(1,2)])
  from assms(3) have "indexOf c DIVIDER = None"
    by (simp add: indexOf_None_iff)
  then have "getCampaignPrompt (h @ DIVIDER @ c) = c"
    by (simp add: getCampaignPrompt_found [OF idx])
  then show ?thesis by (simp add: h_def)
qed

lemma STARTER_trim: "js_trim STARTER = STARTER"
  by (simp add: js_trim_def STARTER_def js_space_def)

lemma STARTER_no_divider: "\<not> sublist DIVIDER STARTER"
  by (simp add: STARTER_def DIVIDER_def sublist_Cons_right)

lemma trimmed_body_no_divider: "\<not> sublist DIVIDER (js_trim (getCampaignPrompt full))"
  using getCampaignPrompt_no_divider js_trim_sublist sublist_order.order.trans by blast

text \<open>
  What \<^verbatim>\<open>getCampaignPrompt\<close> reads after \<^verbatim>\<open>setRecipientLines\<close>, in terms of what it
  reads before.
\<close>

lemma body_after_setRecipientLines:
  assumes "CHR 0x0A \<notin> set email" and "CHR 0x0A \<notin> set name"
  shows "getCampaignPrompt (setRecipientLines doc email name) =
     (if str_includes doc DIVIDER then js_trim (getCampaignPrompt doc) else STARTER)"
proof (cases "str_includes doc DIVIDER")
  case True
  then have "setRecipientLines doc email name =
      ''Recipient Email: '' @ email @ ''\<newline>Prospect Name: '' @ name @ DIVIDER
        @ js_trim (getCampaignPrompt doc)"
    by (simp add: setRecipientLines_def ensureCampaignPromptExists_def)
  with True getCampaignPrompt_rebuilt [OF assms trimmed_body_no_divider [of doc]]
  show ?thesis by simp
next
  case False
  let ?boot = "''Recipient Email: \<newline>Prospect Name: '' @ DIVIDER @ STARTER"
  have boot: "getCampaignPrompt ?boot = STARTER"
    using getCampaignPrompt_rebuilt [of "[]" "[]" STARTER] STARTER_no_divider by simp
  then have "js_trim (getCampaignPrompt ?boot) = STARTER"
    by (simp only: STARTER_trim)
  with False have "setRecipientLines doc email name =
      ''Recipient Email: '' @ email @ ''\<newline>Prospect Name: '' @ name @ DIVIDER @ STARTER"
    by (simp add: setRecipientLines_def ensureCampaignPromptExists_def)
  with False getCampaignPrompt_rebuilt [OF assms STARTER_no_divider]
  show ?thesis by simp
qed

text \<open>
  Claim C1, as amended. Let the email and the name hold no line feed. When the document
  holds the divider and the text after its first occurrence holds no further divider, that
  text is the campaign body, and after \<^verbatim>\<open>setRecipientLines\<close> the campaign body is that
  text without the white space around it. When the document holds no divider, the
  first-use bootstrap applies and the campaign body afterwards is the starter text.
\<close>

theorem setRecipientLines_keeps_single_body:
  assumes "CHR 0x0A \<notin> set email" and "CHR 0x0A \<notin> set name"
  shows "(\<forall>i. indexOf doc DIVIDER = Some i \<and>
              \<not> str_includes (drop (i + length DIVIDER) doc) DIVIDER \<longrightarrow>
            getCampaignPrompt doc = drop (i + length DIVIDER) doc \<and>
            getCampaignPrompt (setRecipientLines doc email name)
              = js_trim (drop (i + length DIVIDER) doc)) \<and>
         (\<not> str_includes doc DIVIDER \<longrightarrow>
            getCampaignPrompt (setRecipientLines doc email name) = STARTER)"
proof (intro conjI allI impI)
  fix i
  assume a: "indexOf doc DIVIDER = Some i \<and> \<not> str_includes (drop (i + length DIVIDER) doc) DIVIDER"
  then have idx: "indexOf doc DIVIDER = Some i"
    and rest: "indexOf (drop (i + length DIVIDER) doc) DIVIDER = None"
    by (simp_all add: str_includes_def)
  from rest show body: "getCampaignPrompt doc = drop (i + length DIVIDER) doc"
    by (simp add: getCampaignPrompt_found [OF idx])
  from idx have "str_includes doc DIVIDER" by (simp add: str_includes_def)
  with body_after_setRecipientLines [OF assms, of doc] body
  show "getCampaignPrompt (setRecipientLines doc email name) = js_trim (drop (i + length DIVIDER) doc)"
    by simp
next
  assume "\<not> str_includes doc DIVIDER"
  with body_after_setRecipientLines [OF assms, of doc]
  show "getCampaignPrompt (setRecipientLines doc email name) = STARTER" by simp
qed

text \<open>
  The theorem of C1 at a document whose body ends in two spaces, and at a text without
  the divider.
\<close>

theorem setRecipientLines_keeps_single_body_witness:
  "CHR 0x0A \<notin> set ''jane@biz.com'' \<and> CHR 0x0A \<notin> set ''Jane'' \<and>
   indexOf (''Recipient Email: \<newline>Prospect Name: '' @ DIVIDER @ ''Offer a free review.  '') DIVIDER
     = Some 33 \<and>
   \<not> str_includes ''Offer a free review.  '' DIVIDER \<and>
   getCampaignPrompt (setRecipientLines
      (''Recipient Email: \<newline>Prospect Name: '' @ DIVIDER @ ''Offer a free review.  '')
      ''jane@biz.com'' ''Jane'') = ''Offer a free review.'' \<and>
   \<not> str_includes ''Offer a free review.'' DIVIDER \<and>
   getCampaignPrompt (setRecipientLines ''Offer a free review.'' ''jane@biz.com'' ''Jane'') = STARTER"
proof -
  let ?doc = "''Recipient Email: \<newline>Prospect Name: '' @ DIVIDER @ ''Offer a free review.  ''"
  have e: "CHR 0x0A \<notin> set ''jane@biz.com''" and n: "CHR 0x0A \<notin> set ''Jane''" by simp_all
  have idx: "indexOf ?doc DIVIDER = Some 33" by code_simp
  have rest: "drop (33 + length DIVIDER) ?doc = ''Offer a free review.  ''" by code_simp
  have nd: "\<not> str_includes ''Offer a free review.  '' DIVIDER" by code_simp
  have tr: "js_trim ''Offer a free review.  '' = ''Offer a free review.''" by code_simp
  have nd2: "\<not> str_includes ''Offer a free review.'' DIVIDER" by code_simp
  from setRecipientLines_keeps_single_body [OF e n, of ?doc] idx rest nd tr
  have one: "getCampaignPrompt (setRecipientLines ?doc ''jane@biz.com'' ''Jane'') = ''Offer a free review.''"
    by simp
  from setRecipientLines_keeps_single_body [OF e n, of "''Offer a free review.''"] nd2
  have two: "getCampaignPrompt (setRecipientLines ''Offer a free review.'' ''jane@biz.com'' ''Jane'') = STARTER"
    by simp
  from e n idx nd nd2 one two show ?thesis by simp
qed

text \<open>
  Claim C1 as the specification words it (the body after the merge is the body before,
  verbatim, for any email and name) fails: a body that starts with two spaces comes back
  without them; a document without the divider, whose body reads as empty, comes back with
  the starter text; and an email that holds the divider moves the body.
\<close>

theorem setRecipientLines_body_counterexample:
  "getCampaignPrompt (''Recipient Email: \<newline>Prospect Name: '' @ DIVIDER @ ''  Offer a free review.'')
     = ''  Offer a free review.'' \<and>
   getCampaignPrompt (setRecipientLines
      (''Recipient Email: \<newline>Prospect Name: '' @ DIVIDER @ ''  Offer a free review.'')
      ''jane@biz.com'' ''Jane'') = ''Offer a free review.'' \<and>
   getCampaignPrompt ''Offer a free review.'' = [] \<and>
   getCampaignPrompt (setRecipientLines ''Offer a free review.'' ''jane@biz.com'' ''Jane'') = STARTER \<and>
   getCampaignPrompt (''Recipient Email: \<newline>Prospect Name: '' @ DIVIDER @ ''Offer'') = ''Offer'' \<and>
   getCampaignPrompt (setRecipientLines
      (''Recipient Email: \<newline>Prospect Name: '' @ DIVIDER @ ''Offer'')
      (''x'' @ DIVIDER @ ''y'') ''Jane'') = ''y\<newline>Prospect Name: Jane''"
  by code_simp

text \<open>
  Claim C7 at a document with two dividers: \<^verbatim>\<open>getCampaignPrompt\<close> returns the text
  between the first and the second divider, \<^verbatim>\<open>B\<close>, while the text after the first
  occurrence is \<^verbatim>\<open>B\<close>, the divider and \<^verbatim>\<open>C\<close>.
\<close>

theorem getCampaignPrompt_second_divider:
  "getCampaignPrompt (''A'' @ DIVIDER @ ''B'' @ DIVIDER @ ''C'') = ''B'' \<and>
   drop (the (indexOf (''A'' @ DIVIDER @ ''B'' @ DIVIDER @ ''C'') DIVIDER) + length DIVIDER)
        (''A'' @ DIVIDER @ ''B'' @ DIVIDER @ ''C'') = ''B'' @ DIVIDER @ ''C''"
  by code_simp

text \<open>
  Claim C8 at the document the page starts with (the bootstrap text, both header fields
  empty): \<^verbatim>\<open>\s*\<close> runs over the line break after an empty field, so the header read
  from it is not empty, and replacing the campaign text changes the name that is read back.
\<close>

theorem setCampaignPromptOnly_header_changes:
  "getRecipientFromPrompt (ensureCampaignPromptExists []) =
      \<lparr>r_email = ''Prospect Name:'', r_name = ''--- CAMPAIGN PROMPT ---''\<rparr> \<and>
   getRecipientFromPrompt (setCampaignPromptOnly (ensureCampaignPromptExists []) ''Hello'') =
      \<lparr>r_email = ''Prospect Name:'', r_name = ''Prospect Name: --- CAMPAIGN PROMPT ---''\<rparr>"
  by code_simp

section \<open>The prospect list parser (server)\<close>

record prospect =
  p_name :: string
  p_email :: string

text \<open>
  \<^verbatim>\<open>parse_prospect_lines\<close> is one loop over the lines of the text. Its body is split
  here in two: \<^verbatim>\<open>line_fields\<close> is the \<^verbatim>\<open>if/elif/else\<close> that reads name and email off
  the stripped line, \<^verbatim>\<open>line_prospect\<close> the body up to the check of the email
  (\<^verbatim>\<open>None\<close> where the source says \<^verbatim>\<open>continue\<close>), and \<^verbatim>\<open>parse_loop\<close> the loop with
  its two variables \<^verbatim>\<open>out\<close> and \<^verbatim>\<open>seen\<close>. The index 1 of a split is read only under
  the test that the separator is in the line, where the split has two parts.
\<close>

definition line_fields :: "string \<Rightarrow> string \<times> string" where
  "line_fields line =
     (if CHR ''<'' \<in> set line \<and> CHR ''>'' \<in> set line then
        (py_strip (py_split1 line CHR ''<'' ! 0),
         py_strip (py_split1 (py_split1 line CHR ''<'' ! 1) CHR ''>'' ! 0))
      else if CHR '','' \<in> set line then
        (let parts = map py_strip (py_split1 line CHR '','')
         in if length parts = 2 then (parts ! 0, parts ! 1) else ([], []))
      else ([], line))"

definition line_prospect :: "string \<Rightarrow> prospect option" where
  "line_prospect raw =
     (let line = py_strip raw in
      if line = [] then None
      else
        let email = py_strip (snd (line_fields line));
            name = py_strip (fst (line_fields line))
        in if CHR ''@'' \<in> set email \<and> CHR ''.'' \<in> set email
           then Some \<lparr> p_name = name, p_email = email \<rparr>
           else None)"

fun parse_loop :: "string list \<Rightarrow> prospect list \<Rightarrow> string set \<Rightarrow> prospect list" where
  "parse_loop [] out seen = out"
| "parse_loop (raw # rest) out seen =
     (case line_prospect raw of
        None \<Rightarrow> parse_loop rest out seen
      | Some p \<Rightarrow>
          (let key = py_lower (p_email p) in
           if key \<in> seen then parse_loop rest out seen
           else parse_loop rest (out @ [p]) (insert key seen)))"

definition parse_prospect_lines :: "string \<Rightarrow> prospect list" where
  "parse_prospect_lines text = parse_loop (py_splitlines text) [] {}"

text \<open>
  The candidates of a text: the records of its lines that pass the check of the email, in
  the order of the lines, before any is dropped as a duplicate. The key of a record is its
  email in lower case.
\<close>

definition candidates :: "string \<Rightarrow> prospect list" where
  "candidates text = List.map_filter line_prospect (py_splitlines text)"

definition email_key :: "prospect \<Rightarrow> string" where
  "email_key p = py_lower (p_email p)"

fun keep_unseen :: "string set \<Rightarrow> prospect list \<Rightarrow> prospect list" where
  "keep_unseen seen [] = []"
| "keep_unseen seen (p # ps) =
     (if email_key p \<in> seen then keep_unseen seen ps
      else p # keep_unseen (insert (email_key p) seen) ps)"

lemma parse_loop_keep_unseen:
  "parse_loop ls out seen = out @ keep_unseen seen (List.map_filter line_prospect ls)"
  by (induction ls arbitrary: out seen)
    (auto simp: List.map_filter_simps email_key_def Let_def split: option.splits)

lemma keep_unseen_keys:
  "email_key ` set (keep_unseen seen ps) = email_key ` set ps - seen"
  by (induction ps arbitrary: seen) auto

lemma keep_unseen_distinct: "distinct (map email_key (keep_unseen seen ps))"
proof (induction ps arbitrary: seen)
  case Nil
  then show ?case by simp
next
  case (Cons p ps)
  have "email_key p \<notin> email_key ` set (keep_unseen (insert (email_key p) seen) ps)"
    by (simp add: keep_unseen_keys)
  with Cons show ?case by simp
qed

lemma upt_Suc_shift: "[0..<Suc n] = 0 # map Suc [0..<n]"
  by (simp add: upt_conv_Cons map_Suc_upt del: upt_Suc)

lemma keep_unseen_positions:
  "keep_unseen seen ps =
     map (\<lambda>i. ps ! i)
       (filter (\<lambda>i. email_key (ps ! i) \<notin> seen \<union> email_key ` set (take i ps)) [0..<length ps])"
proof (induction ps arbitrary: seen)
  case Nil
  then show ?case by simp
next
  case (Cons p ps)
  have shift: "filter (\<lambda>i. email_key ((p # ps) ! i) \<notin> seen \<union> email_key ` set (take i (p # ps)))
                 (map Suc [0..<length ps])
             = map Suc (filter (\<lambda>i. email_key (ps ! i) \<notin>
                   insert (email_key p) seen \<union> email_key ` set (take i ps)) [0..<length ps])"
    by (simp add: filter_map comp_def conj_ac)
  show ?case
  proof (cases "email_key p \<in> seen")
    case True
    then have "insert (email_key p) seen = seen" by auto
    with True Cons.IH [of seen] shift show ?thesis
      by (simp add: upt_Suc_shift comp_def del: upt_Suc)
  next
    case False
    with Cons.IH [of "insert (email_key p) seen"] shift show ?thesis
      by (simp add: upt_Suc_shift comp_def del: upt_Suc)
  qed
qed

text \<open>
  Claim C4. The parser's output is the list of the candidates that stand at a position
  before which no candidate has the same key, in the order of those positions: of the
  candidates with one key the first is kept, with its name, and the output follows the
  order in which the keys are first seen. No key is in the output twice, and the text of
  the scenario parses to Jane and bob.
\<close>

theorem parse_prospect_lines_first_seen:
  "parse_prospect_lines text =
     map (\<lambda>i. candidates text ! i)
       (filter (\<lambda>i. email_key (candidates text ! i) \<notin> email_key ` set (take i (candidates text)))
          [0..<length (candidates text)]) \<and>
   distinct (map email_key (parse_prospect_lines text)) \<and>
   parse_prospect_lines ''Jane, jane@biz.com\<newline>jane@biz.com\<newline>bob@biz.com'' =
     [\<lparr>p_name = ''Jane'', p_email = ''jane@biz.com''\<rparr>, \<lparr>p_name = [], p_email = ''bob@biz.com''\<rparr>]"
proof -
  have eq: "parse_prospect_lines text = keep_unseen {} (candidates text)"
    by (simp add: parse_prospect_lines_def candidates_def parse_loop_keep_unseen)
  have ex: "parse_prospect_lines ''Jane, jane@biz.com\<newline>jane@biz.com\<newline>bob@biz.com'' =
     [\<lparr>p_name = ''Jane'', p_email = ''jane@biz.com''\<rparr>, \<lparr>p_name = [], p_email = ''bob@biz.com''\<rparr>]"
    by code_simp
  have pos: "parse_prospect_lines text =
     map (\<lambda>i. candidates text ! i)
       (filter (\<lambda>i. email_key (candidates text ! i) \<notin> email_key ` set (take i (candidates text)))
          [0..<length (candidates text)])"
    unfolding eq by (subst keep_unseen_positions) simp
  have "distinct (map email_key (parse_prospect_lines text))"
    unfolding eq by (rule keep_unseen_distinct)
  with pos ex show ?thesis by blast
qed

text \<open>
  The theorem of C4 at a text where an email comes back in capitals, then once more
  unchanged, and where one line holds no email.
\<close>

theorem parse_prospect_lines_first_seen_witness:
  "candidates ''a@x.com\<newline>Bee, B@x.com\<newline>A@X.com\<newline>no email here\<newline>a@x.com\<newline><b@x.com>'' =
     [\<lparr>p_name = [], p_email = ''a@x.com''\<rparr>, \<lparr>p_name = ''Bee'', p_email = ''B@x.com''\<rparr>,
      \<lparr>p_name = [], p_email = ''A@X.com''\<rparr>, \<lparr>p_name = [], p_email = ''a@x.com''\<rparr>,
      \<lparr>p_name = [], p_email = ''b@x.com''\<rparr>] \<and>
   parse_prospect_lines ''a@x.com\<newline>Bee, B@x.com\<newline>A@X.com\<newline>no email here\<newline>a@x.com\<newline><b@x.com>'' =
     [\<lparr>p_name = [], p_email = ''a@x.com''\<rparr>, \<lparr>p_name = ''Bee'', p_email = ''B@x.com''\<rparr>]"
proof -
  let ?t = "''a@x.com\<newline>Bee, B@x.com\<newline>A@X.com\<newline>no email here\<newline>a@x.com\<newline><b@x.com>''"
  have c: "candidates ?t =
     [\<lparr>p_name = [], p_email = ''a@x.com''\<rparr>, \<lparr>p_name = ''Bee'', p_email = ''B@x.com''\<rparr>,
      \<lparr>p_name = [], p_email = ''A@X.com''\<rparr>, \<lparr>p_name = [], p_email = ''a@x.com''\<rparr>,
      \<lparr>p_name = [], p_email = ''b@x.com''\<rparr>]"
    by code_simp
  have k: "map email_key (candidates ?t) = [''a@x.com'', ''b@x.com'', ''a@x.com'', ''a@x.com'', ''b@x.com'']"
    unfolding c by code_simp
  have f: "filter (\<lambda>i. email_key (candidates ?t ! i) \<notin> email_key ` set (take i (candidates ?t)))
          [0..<length (candidates ?t)] = [0, 1]"
    unfolding c by code_simp
  from parse_prospect_lines_first_seen [of ?t]
  have "parse_prospect_lines ?t = map (\<lambda>i. candidates ?t ! i) [0, 1]"
    unfolding f by simp
  then show ?thesis unfolding c by simp
qed

subsection \<open>The comma rule\<close>

text \<open>
  The rule of the specification for a line with a comma: the two trimmed parts when both
  are non-empty, and otherwise the whole line as the email, with no name.
\<close>

definition comma_rule_spec :: "string \<Rightarrow> string \<times> string" where
  "comma_rule_spec line =
     (let name = py_strip (takeWhile (\<lambda>x. x \<noteq> CHR '','') line);
          email = py_strip (tl (dropWhile (\<lambda>x. x \<noteq> CHR '','') line))
      in if name \<noteq> [] \<and> email \<noteq> [] then (name, email) else ([], line))"

lemma strip_twice:
  "rev (dropWhile P (rev (dropWhile P (rev (dropWhile P (rev (dropWhile P s)))))))
     = rev (dropWhile P (rev (dropWhile P s)))"
proof -
  define u where "u = dropWhile P s"
  define v where "v = dropWhile P (rev u)"
  show ?thesis
  proof (cases "v = []")
    case True
    then show ?thesis unfolding u_def [symmetric] v_def [symmetric] by simp
  next
    case False
    have "\<not> P (hd v)" using False unfolding v_def by (rule hd_dropWhile)
    with False have dv: "dropWhile P v = v" by (cases v) auto
    have "rev u = takeWhile P (rev u) @ v" by (simp add: v_def)
    with False have "last v = last (rev u)" by (metis last_appendR)
    moreover have u: "u \<noteq> []" using False by (auto simp: v_def)
    ultimately have "last v = hd u" by (simp add: last_rev)
    moreover have "\<not> P (hd u)" using u unfolding u_def by (rule hd_dropWhile)
    ultimately have "\<not> P (hd (rev v))" using False by (simp add: hd_rev)
    with False have "dropWhile P (rev v) = rev v" by (cases "rev v") auto
    then show ?thesis unfolding u_def [symmetric] v_def [symmetric] by (simp add: dv)
  qed
qed

lemma py_strip_idem: "py_strip (py_strip s) = py_strip s"
  by (simp add: py_strip_def strip_twice)

text \<open>
  Claim C6, as amended. A stripped line with a comma, and not both angle brackets, is split
  at its first comma into name and email, each stripped, whether or not a part is empty;
  the line is kept only when that second part passes the check of the email. Nothing falls
  through to the rule that takes the whole line as the email.
\<close>

theorem comma_rule:
  assumes "line = py_strip raw" and "CHR '','' \<in> set line"
    and "\<not> (CHR ''<'' \<in> set line \<and> CHR ''>'' \<in> set line)"
  shows "line_fields line =
           (py_strip (takeWhile (\<lambda>x. x \<noteq> CHR '','') line),
            py_strip (tl (dropWhile (\<lambda>x. x \<noteq> CHR '','') line))) \<and>
         line_prospect raw =
           (if CHR ''@'' \<in> set (py_strip (tl (dropWhile (\<lambda>x. x \<noteq> CHR '','') line))) \<and>
               CHR ''.'' \<in> set (py_strip (tl (dropWhile (\<lambda>x. x \<noteq> CHR '','') line)))
            then Some \<lparr> p_name = py_strip (takeWhile (\<lambda>x. x \<noteq> CHR '','') line),
                        p_email = py_strip (tl (dropWhile (\<lambda>x. x \<noteq> CHR '','') line)) \<rparr>
            else None)"
proof -
  have fields: "line_fields line =
           (py_strip (takeWhile (\<lambda>x. x \<noteq> CHR '','') line),
            py_strip (tl (dropWhile (\<lambda>x. x \<noteq> CHR '','') line)))"
    using assms(2,3) by (auto simp: line_fields_def py_split1_def Let_def)
  from assms(2) have "line \<noteq> []" by auto
  with assms(1) fields show ?thesis
    by (simp add: line_prospect_def Let_def py_strip_idem)
qed

text \<open>The theorem of C6 at a line whose second part is empty.\<close>

theorem comma_rule_witness:
  "''a@b.com,'' = py_strip '' a@b.com, '' \<and> CHR '','' \<in> set ''a@b.com,'' \<and>
   line_fields ''a@b.com,'' = (''a@b.com'', []) \<and> line_prospect '' a@b.com, '' = None"
proof -
  have st: "''a@b.com,'' = py_strip '' a@b.com, ''" by code_simp
  have c: "CHR '','' \<in> set ''a@b.com,''" by simp
  have a: "\<not> (CHR ''<'' \<in> set ''a@b.com,'' \<and> CHR ''>'' \<in> set ''a@b.com,'')" by simp
  have l: "py_strip (takeWhile (\<lambda>x. x \<noteq> CHR '','') ''a@b.com,'') = ''a@b.com''" by code_simp
  have r: "py_strip (tl (dropWhile (\<lambda>x. x \<noteq> CHR '','') ''a@b.com,'')) = []" by code_simp
  show ?thesis
    using comma_rule [OF st c a] st c unfolding l r by simp
qed

text \<open>
  Claim C6 as the specification words it fails at the line \<^verbatim>\<open>a@b.com,\<close>: the second part
  is empty, the specification's rule takes the whole line as the email, and the code takes
  \<^verbatim>\<open>a@b.com\<close> as the name and the empty text as the email, and drops the line.
\<close>

theorem comma_rule_counterexample:
  "CHR '','' \<in> set ''a@b.com,'' \<and> py_strip ''a@b.com,'' = ''a@b.com,'' \<and>
   comma_rule_spec ''a@b.com,'' = ([], ''a@b.com,'') \<and>
   line_fields ''a@b.com,'' = (''a@b.com'', []) \<and>
   line_fields ''a@b.com,'' \<noteq> comma_rule_spec ''a@b.com,'' \<and>
   parse_prospect_lines ''a@b.com,'' = []"
  by code_simp

section \<open>The template store (server)\<close>

text \<open>
  A template is a JSON object read from \<^verbatim>\<open>templates.json\<close>: here an association list
  from keys to texts, in the order of the keys (the values the server itself writes are
  texts). Assigning to a key of a Python dictionary keeps the key's place, or adds the key
  at the end: \<^const>\<open>AList.update\<close>. The file is absent, or holds something that is not
  a list (or not JSON), or holds a list of templates.
\<close>

type_synonym template = "(string \<times> string) list"

datatype templates_file = NoFile | NotAList | Saved "template list"

datatype py_error = ValueError string

definition load_templates :: "templates_file \<Rightarrow> template list" where
  "load_templates file = (case file of NoFile \<Rightarrow> [] | NotAList \<Rightarrow> [] | Saved items \<Rightarrow> items)"

definition save_templates :: "template list \<Rightarrow> templates_file" where
  "save_templates items = Saved items"

text \<open>\<^verbatim>\<open>(t.get("name") or "").strip().lower()\<close>\<close>

definition name_key :: "template \<Rightarrow> string" where
  "name_key t = py_lower (py_strip (case map_of t ''name'' of None \<Rightarrow> [] | Some v \<Rightarrow> v))"

text \<open>The \<^verbatim>\<open>for\<close> loop of \<^verbatim>\<open>upsert_template\<close>: the list after it, and \<^verbatim>\<open>found\<close>.\<close>

fun upsert_loop :: "template list \<Rightarrow> string \<Rightarrow> string \<Rightarrow> template list \<times> bool" where
  "upsert_loop [] name campaign_prompt = ([], False)"
| "upsert_loop (t # ts) name campaign_prompt =
     (if name_key t = py_lower name
      then (AList.update ''prompt'' campaign_prompt (AList.update ''name'' name t) # ts, True)
      else (t # fst (upsert_loop ts name campaign_prompt),
            snd (upsert_loop ts name campaign_prompt)))"

definition upsert_template ::
  "templates_file \<Rightarrow> string \<Rightarrow> string \<Rightarrow> (py_error + template list) \<times> templates_file" where
  "upsert_template file name0 campaign_prompt0 =
     (let items = load_templates file;
          name = py_strip name0;
          campaign_prompt = py_strip campaign_prompt0
      in if name = [] then (Inl (ValueError ''Template name is required''), file)
         else if campaign_prompt = [] then (Inl (ValueError ''Campaign prompt is required''), file)
         else
           let looped = upsert_loop items name campaign_prompt;
               items1 = (if \<not> snd looped
                         then [(''name'', name), (''prompt'', campaign_prompt)] # fst looped
                         else fst looped)
           in (Inr items1, save_templates items1))"

lemma upsert_loop_first_match:
  "upsert_loop items n p =
     (let i = length (takeWhile (\<lambda>t. name_key t \<noteq> py_lower n) items)
      in if i < length items
         then (items[i := AList.update ''prompt'' p (AList.update ''name'' n (items ! i))], True)
         else (items, False))"
  by (induction items) (auto simp: Let_def)

text \<open>
  Claim C10. With the name or the prompt empty after stripping, \<^verbatim>\<open>upsert_template\<close>
  raises and the file is as before. Otherwise, among the templates of the file (none when
  the file is absent or holds no list), the first whose stripped name equals the new name
  without regard to case is overwritten in its place with the stripped name and prompt,
  or, when none matches, a new template is put at the front; the new list is saved and
  returned.
\<close>

theorem upsert_template_contract:
  "(let n = py_strip name; p = py_strip prompt;
        items = (case file of Saved xs \<Rightarrow> xs | NoFile \<Rightarrow> [] | NotAList \<Rightarrow> []);
        i = length (takeWhile
              (\<lambda>t. py_lower (py_strip (case map_of t ''name'' of Some v \<Rightarrow> v | None \<Rightarrow> []))
                     \<noteq> py_lower n) items);
        hit = items[i := AList.update ''prompt'' p (AList.update ''name'' n (items ! i))];
        front = [(''name'', n), (''prompt'', p)] # items
    in upsert_template file name prompt =
        (if n = [] then (Inl (ValueError ''Template name is required''), file)
         else if p = [] then (Inl (ValueError ''Campaign prompt is required''), file)
         else if i < length items then (Inr hit, Saved hit)
         else (Inr front, Saved front))) \<and>
   map_of (AList.update ''prompt'' (py_strip prompt) (AList.update ''name'' (py_strip name) t)) ''name''
     = Some (py_strip name) \<and>
   map_of (AList.update ''prompt'' (py_strip prompt) (AList.update ''name'' (py_strip name) t)) ''prompt''
     = Some (py_strip prompt)"
  by (simp add: upsert_template_def upsert_loop_first_match save_templates_def Let_def
      update_conv' load_templates_def name_key_def)

text \<open>
  The theorem of C10 at a file of three templates, the second and third matching the new
  name without regard to case; and the other cases at small files.
\<close>

theorem upsert_template_contract_witness:
  "upsert_template
      (Saved [[(''name'', ''Gyms''), (''prompt'', ''gym text'')],
              [(''name'', ''Local Biz''), (''prompt'', ''old text''), (''note'', ''keep'')],
              [(''name'', ''local biz''), (''prompt'', ''later'')]])
      ''  LOCAL biz '' '' new text ''
     = (Inr [[(''name'', ''Gyms''), (''prompt'', ''gym text'')],
             [(''name'', ''LOCAL biz''), (''prompt'', ''new text''), (''note'', ''keep'')],
             [(''name'', ''local biz''), (''prompt'', ''later'')]],
        Saved [[(''name'', ''Gyms''), (''prompt'', ''gym text'')],
             [(''name'', ''LOCAL biz''), (''prompt'', ''new text''), (''note'', ''keep'')],
             [(''name'', ''local biz''), (''prompt'', ''later'')]]) \<and>
   upsert_template (Saved [[(''name'', ''Gyms''), (''prompt'', ''gym text'')]]) ''Cafes'' ''cafe text''
     = (Inr [[(''name'', ''Cafes''), (''prompt'', ''cafe text'')], [(''name'', ''Gyms''), (''prompt'', ''gym text'')]],
        Saved [[(''name'', ''Cafes''), (''prompt'', ''cafe text'')], [(''name'', ''Gyms''), (''prompt'', ''gym text'')]]) \<and>
   upsert_template (Saved [[(''name'', ''Gyms''), (''prompt'', ''gym text'')]]) ''Cafes'' ''   ''
     = (Inl (ValueError ''Campaign prompt is required''), Saved [[(''name'', ''Gyms''), (''prompt'', ''gym text'')]]) \<and>
   upsert_template NotAList '' '' ''cafe text''
     = (Inl (ValueError ''Template name is required''), NotAList) \<and>
   upsert_template NoFile ''Cafes'' ''cafe text''
     = (Inr [[(''name'', ''Cafes''), (''prompt'', ''cafe text'')]], Saved [[(''name'', ''Cafes''), (''prompt'', ''cafe text'')]])"
proof -
  let ?f = "Saved [[(''name'', ''Gyms''), (''prompt'', ''gym text'')],
              [(''name'', ''Local Biz''), (''prompt'', ''old text''), (''note'', ''keep'')],
              [(''name'', ''local biz''), (''prompt'', ''later'')]]"
  let ?g = "Saved [[(''name'', ''Gyms''), (''prompt'', ''gym text'')]]"
  have a: "upsert_template ?f ''  LOCAL biz '' '' new text ''
     = (Inr [[(''name'', ''Gyms''), (''prompt'', ''gym text'')],
             [(''name'', ''LOCAL biz''), (''prompt'', ''new text''), (''note'', ''keep'')],
             [(''name'', ''local biz''), (''prompt'', ''later'')]],
        Saved [[(''name'', ''Gyms''), (''prompt'', ''gym text'')],
             [(''name'', ''LOCAL biz''), (''prompt'', ''new text''), (''note'', ''keep'')],
             [(''name'', ''local biz''), (''prompt'', ''later'')]])"
    by code_simp
  have b: "upsert_template ?g ''Cafes'' ''cafe text''
     = (Inr [[(''name'', ''Cafes''), (''prompt'', ''cafe text'')], [(''name'', ''Gyms''), (''prompt'', ''gym text'')]],
        Saved [[(''name'', ''Cafes''), (''prompt'', ''cafe text'')], [(''name'', ''Gyms''), (''prompt'', ''gym text'')]])"
    by code_simp
  have c: "upsert_template ?g ''Cafes'' ''   ''
     = (Inl (ValueError ''Campaign prompt is required''), ?g)"
    by code_simp
  have d: "upsert_template NotAList '' '' ''cafe text'' = (Inl (ValueError ''Template name is required''), NotAList)"
    by code_simp
  have e: "upsert_template NoFile ''Cafes'' ''cafe text''
     = (Inr [[(''name'', ''Cafes''), (''prompt'', ''cafe text'')]], Saved [[(''name'', ''Cafes''), (''prompt'', ''cafe text'')]])"
    by code_simp
  show ?thesis
    using upsert_template_contract [of "''  LOCAL biz ''" "'' new text ''" ?f] a b c d e by simp
qed

section \<open>Sending and the sent history (server)\<close>

record history_record =
  h_ts :: string
  h_to :: string
  h_subject :: string
  h_body :: string
  h_status :: string
  h_error :: string

text \<open>
  What the route \<^verbatim>\<open>/send\<close> meets outside the program: whether \<^verbatim>\<open>SMTP_USER\<close> and
  \<^verbatim>\<open>SMTP_PASS\<close> are set, the exception of the mail transfer (its text, \<^verbatim>\<open>None\<close> when the
  mail went out), the clock, and the exception of each of the two places that append to
  \<^verbatim>\<open>sent_history.jsonl\<close> (\<^verbatim>\<open>None\<close> when the line was written).
\<close>

record mail_env =
  smtp_configured :: bool
  transfer_error :: "string option"
  clock :: string
  append_sent_error :: "string option"
  append_failed_error :: "string option"

text \<open>An exception is \<^verbatim>\<open>Inl\<close> of its text, \<^verbatim>\<open>str(e)\<close>; the file is the list of its records.\<close>

definition append_sent_history ::
  "history_record list \<Rightarrow> string \<Rightarrow> string \<Rightarrow> string \<Rightarrow> string \<Rightarrow> string \<Rightarrow> string
     \<Rightarrow> string option \<Rightarrow> string + history_record list" where
  "append_sent_history log ts to_email subject body status error io =
     (case io of
        Some d \<Rightarrow> Inl d
      | None \<Rightarrow> Inr (log @ [\<lparr> h_ts = ts, h_to = to_email, h_subject = subject, h_body = body,
                              h_status = status, h_error = error \<rparr>]))"

definition send_email_smtp :: "mail_env \<Rightarrow> string \<Rightarrow> string \<Rightarrow> string \<Rightarrow> string + unit" where
  "send_email_smtp env to_email subject body =
     (if \<not> smtp_configured env then Inl ''Missing SMTP_USER or SMTP_PASS in your .env file''
      else case transfer_error env of Some d \<Rightarrow> Inl d | None \<Rightarrow> Inr ())"

text \<open>
  The body of a request: unreadable (\<^verbatim>\<open>get_json\<close> or \<^verbatim>\<open>data.get\<close> raises), or an object
  whose \<^verbatim>\<open>to\<close>, \<^verbatim>\<open>subject\<close> and \<^verbatim>\<open>body\<close> are texts or missing.
\<close>

datatype send_request = Unreadable string | Payload "string option" "string option" "string option"

datatype send_response = SendOk | SendError string

definition or_empty :: "string option \<Rightarrow> string" where
  "or_empty v = (case v of None \<Rightarrow> [] | Some s \<Rightarrow> s)"

text \<open>The \<^verbatim>\<open>except\<close> clause of \<^verbatim>\<open>send\<close>, with the values the three variables have then.\<close>

definition send_except ::
  "mail_env \<Rightarrow> history_record list \<Rightarrow> string \<Rightarrow> string \<Rightarrow> string \<Rightarrow> string
     \<Rightarrow> send_response \<times> history_record list" where
  "send_except env log to_email subject body e =
     (let log1 =
        (if to_email \<noteq> [] \<or> subject \<noteq> [] \<or> body \<noteq> [] then
           (case append_sent_history log (clock env) to_email subject body ''failed'' e
                   (append_failed_error env) of
              Inr log' \<Rightarrow> log'
            | Inl _ \<Rightarrow> log)
         else log)
      in (SendError e, log1))"

definition send ::
  "mail_env \<Rightarrow> history_record list \<Rightarrow> send_request \<Rightarrow> send_response \<times> history_record list" where
  "send env log req =
     (case req of
        Unreadable e \<Rightarrow> send_except env log [] [] [] e
      | Payload t s b \<Rightarrow>
          (let to_email = py_strip (or_empty t);
               subject = py_strip (or_empty s);
               body = py_strip (or_empty b)
           in if to_email = [] \<or> subject = [] \<or> body = []
              then (SendError ''To, subject, and body are required'', log)
              else case send_email_smtp env to_email subject body of
                     Inl e \<Rightarrow> send_except env log to_email subject body e
                   | Inr _ \<Rightarrow>
                       (case append_sent_history log (clock env) to_email subject body ''sent'' []
                               (append_sent_error env) of
                          Inl e \<Rightarrow> send_except env log to_email subject body e
                        | Inr log' \<Rightarrow> (SendOk, log'))))"

text \<open>
  When \<^verbatim>\<open>to\<close>, \<^verbatim>\<open>subject\<close> and \<^verbatim>\<open>body\<close> are non-empty and the mail transfer raises
  \<^verbatim>\<open>e\<close>, the route answers with the error \<^verbatim>\<open>e\<close> whether or not the history can be
  written; the history gains one record with status \<^verbatim>\<open>failed\<close> and error \<^verbatim>\<open>e\<close> when the
  append works, and is as before when the append raises.
\<close>

lemma send_failure_is_logged_and_returned:
  assumes "py_strip (or_empty t) \<noteq> []" and "py_strip (or_empty s) \<noteq> []"
    and "py_strip (or_empty b) \<noteq> []"
    and "send_email_smtp env (py_strip (or_empty t)) (py_strip (or_empty s)) (py_strip (or_empty b)) = Inl e"
  shows "send env log (Payload t s b) =
     (SendError e,
      if append_failed_error env = None
      then log @ [\<lparr> h_ts = clock env, h_to = py_strip (or_empty t), h_subject = py_strip (or_empty s),
                     h_body = py_strip (or_empty b), h_status = ''failed'', h_error = e \<rparr>]
      else log)"
  using assms
  by (auto simp: send_def send_except_def append_sent_history_def Let_def split: option.splits)

text \<open>
  The other append sits inside the \<^verbatim>\<open>try\<close>: when the mail went out and the append of
  the \<^verbatim>\<open>sent\<close> record raises, that exception reaches the same \<^verbatim>\<open>except\<close> clause
  and the route answers with an error.
\<close>

lemma send_history_trouble_after_delivery:
  assumes "py_strip (or_empty t) \<noteq> []" and "py_strip (or_empty s) \<noteq> []"
    and "py_strip (or_empty b) \<noteq> []"
    and "smtp_configured env" and "transfer_error env = None" and "append_sent_error env = Some e"
  shows "fst (send env log (Payload t s b)) = SendError e"
  using assms
  by (auto simp: send_def send_except_def send_email_smtp_def append_sent_history_def Let_def
      split: option.splits)

text \<open>
  Claim C9 at a request whose mail goes out while the history file cannot be written: the
  route answers with the error of the file, and the record it then writes says
  \<^verbatim>\<open>failed\<close>; with the file writable the same request is answered \<^verbatim>\<open>ok\<close>.
\<close>

theorem send_history_trouble_masks_delivery:
  "send \<lparr> smtp_configured = True, transfer_error = None, clock = ''2024-01-01T00:00:00Z'',
          append_sent_error = Some ''No space left on device'', append_failed_error = None \<rparr>
        [] (Payload (Some ''jane@biz.com'') (Some ''Hi'') (Some ''Hello Jane'')) =
     (SendError ''No space left on device'',
      [\<lparr> h_ts = ''2024-01-01T00:00:00Z'', h_to = ''jane@biz.com'', h_subject = ''Hi'',
          h_body = ''Hello Jane'', h_status = ''failed'', h_error = ''No space left on device'' \<rparr>]) \<and>
   send_email_smtp \<lparr> smtp_configured = True, transfer_error = None, clock = ''2024-01-01T00:00:00Z'',
          append_sent_error = Some ''No space left on device'', append_failed_error = None \<rparr>
        ''jane@biz.com'' ''Hi'' ''Hello Jane'' = Inr () \<and>
   send \<lparr> smtp_configured = True, transfer_error = None, clock = ''2024-01-01T00:00:00Z'',
          append_sent_error = None, append_failed_error = None \<rparr>
        [] (Payload (Some ''jane@biz.com'') (Some ''Hi'') (Some ''Hello Jane'')) =
     (SendOk,
      [\<lparr> h_ts = ''2024-01-01T00:00:00Z'', h_to = ''jane@biz.com'', h_subject = ''Hi'',
          h_body = ''Hello Jane'', h_status = ''sent'', h_error = [] \<rparr>])"
  by code_simp

section \<open>The page: Play Mode and the Full Automation Queue\<close>

text \<open>
  The script keeps its state in global variables and in the fields of the page; the record
  \<^verbatim>\<open>page\<close> holds the ones the two controllers read or write. A message box is hidden
  (\<^verbatim>\<open>None\<close>) or shows a message, good or bad; the messages are the texts of the script,
  one constructor for each, with the values the text is built from. The style of the
  buttons and of the list (\<^verbatim>\<open>setPlayUI\<close>, \<^verbatim>\<open>setAutoUI\<close>, the class \<^verbatim>\<open>active\<close>), the
  rendering of the history and the text shown only while a request is awaited
  (\<^verbatim>\<open>Generating...\<close>, \<^verbatim>\<open>Sending...\<close>) are left out.

  The field \<^verbatim>\<open>trace\<close> is not a variable of the script. It records, in order, what the
  script did towards the server: each request to \<^verbatim>\<open>/generate\<close> and \<^verbatim>\<open>/send\<close> with its
  answer, and each time a step gave up before any request.

  The answers of the server are arguments. Every \<^verbatim>\<open>fetch\<close> is taken to be answered with
  JSON, as the routes of the server do; and while a handler waits for an answer the
  operator does nothing but, in the queue, press \<^verbatim>\<open>Stop\<close>.
\<close>

datatype message =
    AddProspectsFirst
  | WritePromptFirst
  | ServerError string
  | Preview string string string
  | FillFieldsFirst
  | SentSuccessfully
  | Selected string
  | ReadyToApprove
  | GenerateFirst
  | SentPlayOff
  | SentEndOfList
  | AutoStarted int int
  | Working string int int
  | StoppedGeneration
  | StoppedMissing
  | StoppedSend
  | DoneMaxSends int
  | DoneEndOfList int
  | SentWaiting int int
  | StoppingAuto
  | AutoStopped

type_synonym box = "(message \<times> bool) option"

record draft =
  d_to :: string
  d_subject :: string
  d_body :: string

datatype generate_reply = GenerateError string | GenerateOk draft

datatype history_reply = HistoryError string | HistoryItems

datatype event =
    Generated string generate_reply
  | GenerateRefused
  | FieldsMissing
  | Sent string string string send_response
  | SendRefused

record page =
  prospects :: "prospect list"
  activeIndex :: int
  playRunning :: bool
  awaitingApproval :: bool
  approveDisabled :: bool
  autoRunning :: bool
  autoStopRequested :: bool
  promptBox :: string
  toBox :: string
  subjectBox :: string
  bodyBox :: string
  autoMaxBox :: string
  autoDelayBox :: string
  aiOut :: box
  sendOut :: box
  plistMsg :: box
  autoOut :: box
  trace :: "event list"

text \<open>\<^verbatim>\<open>prospects[i]\<close>: \<^verbatim>\<open>undefined\<close> outside the list.\<close>

definition prospect_at :: "prospect list \<Rightarrow> int \<Rightarrow> prospect option" where
  "prospect_at ps i = (if 0 \<le> i \<and> i < int (length ps) then Some (ps ! nat i) else None)"

definition setActive :: "page \<Rightarrow> int \<Rightarrow> page" where
  "setActive s index =
     (let s1 = s\<lparr>activeIndex := index\<rparr> in
      case prospect_at (prospects s1) index of
        None \<Rightarrow> s1
      | Some p \<Rightarrow>
          s1\<lparr>toBox := p_email p,
             promptBox := setRecipientLines (promptBox s1) (p_email p) (p_name p),
             plistMsg := Some (Selected (p_email p), True)\<rparr>)"

definition fillEmailFields :: "page \<Rightarrow> draft \<Rightarrow> page" where
  "fillEmailFields s d =
     s\<lparr>toBox := (if d_to d \<noteq> [] then d_to d else toBox s),
       subjectBox := d_subject d,
       bodyBox := d_body d\<rparr>"

definition generateNow :: "page \<Rightarrow> generate_reply \<Rightarrow> page \<times> bool" where
  "generateNow s reply =
     (let s1 = s\<lparr>aiOut := None\<rparr>;
          prompt = js_trim (promptBox s1)
      in if prompt = [] then
           (s1\<lparr>aiOut := Some (WritePromptFirst, False), trace := trace s1 @ [GenerateRefused]\<rparr>,
            False)
         else
           let s2 = s1\<lparr>trace := trace s1 @ [Generated prompt reply]\<rparr> in
           case reply of
             GenerateError e \<Rightarrow>
               (s2\<lparr>aiOut := Some (ServerError (if e = [] then ''AI error'' else e), False)\<rparr>,
                False)
           | GenerateOk d \<Rightarrow>
               ((fillEmailFields s2 d)
                  \<lparr>aiOut := Some (Preview (d_to d) (d_subject d) (d_body d), True)\<rparr>,
                True))"

definition sendNow :: "page \<Rightarrow> send_response \<Rightarrow> page \<times> bool" where
  "sendNow s reply =
     (let s1 = s\<lparr>sendOut := None\<rparr>;
          to = js_trim (toBox s1);
          subject = js_trim (subjectBox s1);
          body = bodyBox s1
      in if to = [] \<or> subject = [] \<or> body = [] then
           (s1\<lparr>sendOut := Some (FillFieldsFirst, False), trace := trace s1 @ [SendRefused]\<rparr>,
            False)
         else
           let s2 = s1\<lparr>trace := trace s1 @ [Sent to subject body reply]\<rparr> in
           case reply of
             SendError e \<Rightarrow>
               (s2\<lparr>sendOut := Some (ServerError (if e = [] then ''Send error'' else e), False)\<rparr>,
                False)
           | SendOk \<Rightarrow> (s2\<lparr>sendOut := Some (SentSuccessfully, True)\<rparr>, True))"

definition loadHistory :: "page \<Rightarrow> history_reply \<Rightarrow> page" where
  "loadHistory s reply =
     (case reply of
        HistoryError e \<Rightarrow>
          s\<lparr>sendOut := Some (ServerError (if e = [] then ''Could not load history'' else e), False)\<rparr>
      | HistoryItems \<Rightarrow> s)"

subsection \<open>Play Mode\<close>



subsection \<open>The Full Automation Queue\<close>

text \<open>
  \<^verbatim>\<open>parseInt(text, 10)\<close>: white space, a sign, then the digits up to the first other
  character; \<^verbatim>\<open>None\<close> is \<^verbatim>\<open>NaN\<close>. (A number too large for a double is rounded by
  JavaScript; it is clamped to the same bound either way.)
\<close>

definition digit_value :: "char \<Rightarrow> int option" where
  "digit_value c = map_of (zip ''0123456789'' [0, 1, 2, 3, 4, 5, 6, 7, 8, 9]) c"

definition js_parseInt :: "string \<Rightarrow> int option" where
  "js_parseInt text =
     (let t = dropWhile js_space text;
          negative = (t \<noteq> [] \<and> hd t = CHR ''-'');
          u = (if t \<noteq> [] \<and> (hd t = CHR ''-'' \<or> hd t = CHR ''+'') then tl t else t);
          digits = takeWhile (\<lambda>c. digit_value c \<noteq> None) u;
          v = foldl (\<lambda>a c. 10 * a + (case digit_value c of Some d \<Rightarrow> d | None \<Rightarrow> 0)) 0 digits
      in if digits = [] then None else Some (if negative then - v else v))"

definition auto_max :: "string \<Rightarrow> int" where
  "auto_max text =
     (let maxSends = (case js_parseInt (if text = [] then ''15'' else text) of
                        None \<Rightarrow> 15 | Some v \<Rightarrow> v)
      in max 1 (min 15 maxSends))"

definition auto_delay :: "string \<Rightarrow> int" where
  "auto_delay text =
     (let delaySec = (case js_parseInt (if text = [] then ''12'' else text) of
                        None \<Rightarrow> 12 | Some v \<Rightarrow> v)
      in max 2 (min 600 delaySec))"

text \<open>The handler of \<^verbatim>\<open>autoStopBtn\<close>.\<close>

definition autoStop :: "page \<Rightarrow> page" where
  "autoStop s =
     (if \<not> autoRunning s then s
      else s\<lparr>autoStopRequested := True, autoRunning := False,
             autoOut := Some (StoppingAuto, True)\<rparr>)"

text \<open>
  What one turn of the loop meets: the answers to its three requests, and whether the
  operator presses \<^verbatim>\<open>Stop\<close> while the turn waits for the draft, for the send and the
  history, or for the delay to pass.
\<close>

datatype stop_point = WhileGenerating | WhileSending | WhileWaiting

record turn_env =
  gen_reply :: generate_reply
  sent_reply :: send_response
  hist_reply :: history_reply
  stop_click :: "stop_point option"

definition operator :: "turn_env \<Rightarrow> stop_point \<Rightarrow> page \<Rightarrow> page" where
  "operator e pt s = (if stop_click e = Some pt then autoStop s else s)"

datatype flow = Break | Continue

text \<open>The body of the \<^verbatim>\<open>while\<close> loop, up to \<^verbatim>\<open>i += 1\<close>.\<close>

definition auto_turn :: "turn_env \<Rightarrow> int \<Rightarrow> int \<Rightarrow> int \<Rightarrow> int \<Rightarrow> page \<Rightarrow> page \<times> flow" where
  "auto_turn e maxSends delaySec sentCount i s =
     (let s1 = setActive s i;
          email = (case prospect_at (prospects s1) i of Some p \<Rightarrow> p_email p | None \<Rightarrow> []);
          s2 = s1\<lparr>autoOut := Some (Working email (i + 1) (int (length (prospects s1))), True)\<rparr>
      in case generateNow s2 (gen_reply e) of
           (s3a, gen_ok) \<Rightarrow>
             let s3 = operator e WhileGenerating s3a in
             if \<not> gen_ok then (s3\<lparr>autoOut := Some (StoppedGeneration, False)\<rparr>, Break)
             else if js_trim (toBox s3) = [] \<or> js_trim (subjectBox s3) = []
                       \<or> js_trim (bodyBox s3) = [] then
               (s3\<lparr>autoOut := Some (StoppedMissing, False), trace := trace s3 @ [FieldsMissing]\<rparr>,
                Break)
             else
               case sendNow s3 (sent_reply e) of
                 (s4, sent) \<Rightarrow>
                   let s5 = operator e WhileSending (loadHistory s4 (hist_reply e)) in
                   if \<not> sent then (s5\<lparr>autoOut := Some (StoppedSend, False)\<rparr>, Break)
                   else if sentCount + 1 \<ge> maxSends then
                     (s5\<lparr>autoOut := Some (DoneMaxSends (sentCount + 1), True)\<rparr>, Break)
                   else if i \<ge> int (length (prospects s5)) - 1 then
                     (s5\<lparr>autoOut := Some (DoneEndOfList (sentCount + 1), True)\<rparr>, Break)
                   else
                     (operator e WhileWaiting
                        (s5\<lparr>autoOut := Some (SentWaiting (sentCount + 1) delaySec, True)\<rparr>),
                      Continue))"

subsection \<open>What the steps leave alone, and what they add to the trace\<close>

lemma setActive_frame [simp]:
  "prospects (setActive s i) = prospects s" "trace (setActive s i) = trace s"
  "autoRunning (setActive s i) = autoRunning s" "autoOut (setActive s i) = autoOut s"
  "playRunning (setActive s i) = playRunning s" "activeIndex (setActive s i) = i"
  "awaitingApproval (setActive s i) = awaitingApproval s"
  by (simp_all add: setActive_def Let_def split: option.splits)

definition gen_event :: "page \<Rightarrow> generate_reply \<Rightarrow> event" where
  "gen_event s reply =
     (if js_trim (promptBox s) = [] then GenerateRefused
      else Generated (js_trim (promptBox s)) reply)"

definition sent_event :: "page \<Rightarrow> send_response \<Rightarrow> event" where
  "sent_event s reply =
     (if js_trim (toBox s) = [] \<or> js_trim (subjectBox s) = [] \<or> bodyBox s = [] then SendRefused
      else Sent (js_trim (toBox s)) (js_trim (subjectBox s)) (bodyBox s) reply)"

fun is_failure :: "event \<Rightarrow> bool" where
  "is_failure (Generated p (GenerateError e)) = True"
| "is_failure (Generated p (GenerateOk d)) = False"
| "is_failure GenerateRefused = True"
| "is_failure FieldsMissing = True"
| "is_failure (Sent t s b (SendError e)) = True"
| "is_failure (Sent t s b SendOk) = False"
| "is_failure SendRefused = True"

fun is_send :: "event \<Rightarrow> bool" where
  "is_send (Sent t s b r) = True"
| "is_send e = False"

lemma generateNow_frame [simp]:
  "prospects (fst (generateNow s r)) = prospects s"
  "autoRunning (fst (generateNow s r)) = autoRunning s"
  "autoStopRequested (fst (generateNow s r)) = autoStopRequested s"
  "autoOut (fst (generateNow s r)) = autoOut s"
  "sendOut (fst (generateNow s r)) = sendOut s"
  "playRunning (fst (generateNow s r)) = playRunning s"
  "activeIndex (fst (generateNow s r)) = activeIndex s"
  "promptBox (fst (generateNow s r)) = promptBox s"
  by (simp_all add: generateNow_def fillEmailFields_def Let_def split: generate_reply.splits)

lemma generateNow_trace [simp]:
  "trace (fst (generateNow s r)) = trace s @ [gen_event s r]"
  by (simp add: generateNow_def gen_event_def fillEmailFields_def Let_def
      split: generate_reply.splits)

lemma generateNow_ok [simp]: "snd (generateNow s r) = (\<not> is_failure (gen_event s r))"
  by (simp add: generateNow_def gen_event_def Let_def split: generate_reply.splits)

lemma sendNow_frame [simp]:
  "prospects (fst (sendNow s r)) = prospects s"
  "autoRunning (fst (sendNow s r)) = autoRunning s"
  "autoStopRequested (fst (sendNow s r)) = autoStopRequested s"
  "autoOut (fst (sendNow s r)) = autoOut s"
  "playRunning (fst (sendNow s r)) = playRunning s"
  "awaitingApproval (fst (sendNow s r)) = awaitingApproval s"
  "activeIndex (fst (sendNow s r)) = activeIndex s"
  "promptBox (fst (sendNow s r)) = promptBox s"
  by (simp_all add: sendNow_def Let_def split: send_response.splits)

lemma sendNow_trace [simp]:
  "trace (fst (sendNow s r)) = trace s @ [sent_event s r]"
  by (simp add: sendNow_def sent_event_def Let_def split: send_response.splits)

lemma sendNow_ok [simp]: "snd (sendNow s r) = (\<not> is_failure (sent_event s r))"
  by (simp add: sendNow_def sent_event_def Let_def split: send_response.splits)

lemma loadHistory_frame [simp]:
  "prospects (loadHistory s r) = prospects s" "trace (loadHistory s r) = trace s"
  "autoRunning (loadHistory s r) = autoRunning s"
  "autoStopRequested (loadHistory s r) = autoStopRequested s"
  "autoOut (loadHistory s r) = autoOut s"
  "playRunning (loadHistory s r) = playRunning s"
  "awaitingApproval (loadHistory s r) = awaitingApproval s"
  "activeIndex (loadHistory s r) = activeIndex s"
  "promptBox (loadHistory s r) = promptBox s"
  by (simp_all add: loadHistory_def split: history_reply.splits)

lemma operator_frame [simp]:
  "prospects (operator e pt s) = prospects s" "trace (operator e pt s) = trace s"
  "toBox (operator e pt s) = toBox s" "subjectBox (operator e pt s) = subjectBox s"
  "bodyBox (operator e pt s) = bodyBox s"
  by (simp_all add: operator_def autoStop_def)

lemma operator_autoOut_update [simp]:
  "prospects ((operator e pt s)\<lparr>autoOut := m\<rparr>) = prospects s"
  "trace ((operator e pt s)\<lparr>autoOut := m\<rparr>) = trace s"
  by simp_all

lemma auto_turn_prospects [simp]:
  "prospects (fst (auto_turn e m d c i s)) = prospects s"
  by (simp add: auto_turn_def Let_def split_beta)

subsection \<open>The loop of the queue\<close>

text \<open>
  The \<^verbatim>\<open>while\<close> loop with its variables \<^verbatim>\<open>sentCount\<close> and \<^verbatim>\<open>i\<close>; \<^verbatim>\<open>env i\<close> is what
  the turn for prospect \<^verbatim>\<open>i\<close> meets. A \<^verbatim>\<open>break\<close> leaves the loop with the state of the
  turn.
\<close>

function auto_loop ::
  "(int \<Rightarrow> turn_env) \<Rightarrow> int \<Rightarrow> int \<Rightarrow> int \<Rightarrow> int \<Rightarrow> page \<Rightarrow> page" where
  "auto_loop env maxSends delaySec sentCount i s =
     (if autoRunning s \<and> \<not> autoStopRequested s \<and> sentCount < maxSends
           \<and> i < int (length (prospects s))
      then (case snd (auto_turn (env i) maxSends delaySec sentCount i s) of
              Break \<Rightarrow> fst (auto_turn (env i) maxSends delaySec sentCount i s)
            | Continue \<Rightarrow>
                auto_loop env maxSends delaySec (sentCount + 1) (i + 1)
                  (fst (auto_turn (env i) maxSends delaySec sentCount i s)))
      else s)"
  by pat_completeness auto
termination
  by (relation "measure (\<lambda>(env, maxSends, delaySec, sentCount, i, s).
        nat (int (length (prospects s)) - i))")
     auto

declare auto_loop.simps [simp del]

definition runFullAutomationQueue :: "page \<Rightarrow> (int \<Rightarrow> turn_env) \<Rightarrow> page" where
  "runFullAutomationQueue s env =
     (if prospects s = [] then s\<lparr>autoOut := Some (AddProspectsFirst, False)\<rparr>
      else
        let s1 = (if playRunning s
                  then s\<lparr>playRunning := False, awaitingApproval := False, approveDisabled := True\<rparr>
                  else s);
            maxSends = auto_max (autoMaxBox s1);
            delaySec = auto_delay (autoDelayBox s1);
            s2 = (if activeIndex s1 < 0 then setActive s1 0 else s1);
            s3 = s2\<lparr>autoRunning := True, autoStopRequested := False\<rparr>;
            i = activeIndex s3;
            s4 = s3\<lparr>autoOut := Some (AutoStarted (i + 1) (int (length (prospects s3))), True)\<rparr>;
            s5 = auto_loop env maxSends delaySec 0 i s4;
            s6 = s5\<lparr>autoRunning := False, autoStopRequested := False\<rparr>
        in if autoOut s6 = None then s6\<lparr>autoOut := Some (AutoStopped, True)\<rparr> else s6)"

text \<open>The events a step added to the trace, and the message that belongs to a failure.\<close>

definition events_since :: "page \<Rightarrow> page \<Rightarrow> event list" where
  "events_since s s' = drop (length (trace s)) (trace s')"

fun failure_message :: "event \<Rightarrow> message" where
  "failure_message (Generated p r) = StoppedGeneration"
| "failure_message GenerateRefused = StoppedGeneration"
| "failure_message FieldsMissing = StoppedMissing"
| "failure_message (Sent t s b r) = StoppedSend"
| "failure_message SendRefused = StoppedSend"

fun fail_fast :: "event list \<Rightarrow> bool" where
  "fail_fast [] = True"
| "fail_fast (e # es) = (if is_failure e then es = [] else fail_fast es)"


lemma fail_fast_append:
  "\<forall>x \<in> set xs. \<not> is_failure x \<Longrightarrow> fail_fast (xs @ ys) = fail_fast ys"
  by (induction xs) auto

lemma failure_message_gen [simp]: "failure_message (gen_event s r) = StoppedGeneration"
  by (simp add: gen_event_def)

lemma failure_message_sent [simp]: "failure_message (sent_event s r) = StoppedSend"
  by (simp add: sent_event_def)

lemma is_send_gen [simp]: "\<not> is_send (gen_event s r)"
  by (simp add: gen_event_def)

lemma events_since_self [simp]: "events_since s s = []"
  by (simp add: events_since_def)

lemma auto_turn_trace:
  "trace (fst (auto_turn e m d c i s)) = trace s @ events_since s (fst (auto_turn e m d c i s))"
  by (simp add: auto_turn_def Let_def split_beta events_since_def)

lemma auto_turn_sends:
  "length (filter is_send (events_since s (fst (auto_turn e m d c i s)))) \<le> 1"
  by (simp add: auto_turn_def Let_def split_beta events_since_def)

lemma auto_turn_continue:
  "snd (auto_turn e m d c i s) = Continue \<Longrightarrow>
     \<forall>x \<in> set (events_since s (fst (auto_turn e m d c i s))). \<not> is_failure x"
  by (simp add: auto_turn_def Let_def split_beta events_since_def split: if_splits)

lemma auto_turn_break:
  "snd (auto_turn e m d c i s) = Break \<Longrightarrow>
     fail_fast (events_since s (fst (auto_turn e m d c i s)))"
  by (simp add: auto_turn_def Let_def split_beta events_since_def split: if_splits)

lemma auto_turn_message:
  "is_failure (last (events_since s (fst (auto_turn e m d c i s)))) \<Longrightarrow>
     autoOut (fst (auto_turn e m d c i s))
       = Some (failure_message (last (events_since s (fst (auto_turn e m d c i s)))), False)"
  by (auto simp: auto_turn_def Let_def split_beta events_since_def split: if_splits)

lemma auto_turn_nonempty:
  "events_since s (fst (auto_turn e m d c i s)) \<noteq> []"
  by (simp add: auto_turn_def Let_def split_beta events_since_def)






lemma auto_loop_stop:
  "\<not> (autoRunning s \<and> \<not> autoStopRequested s \<and> c < m \<and> i < int (length (prospects s))) \<Longrightarrow>
     auto_loop env m d c i s = s"
  by (subst auto_loop.simps) auto

lemma auto_loop_break:
  "autoRunning s \<and> \<not> autoStopRequested s \<and> c < m \<and> i < int (length (prospects s)) \<Longrightarrow>
   snd (auto_turn (env i) m d c i s) = Break \<Longrightarrow>
     auto_loop env m d c i s = fst (auto_turn (env i) m d c i s)"
  by (subst auto_loop.simps) simp

lemma auto_loop_continue:
  "autoRunning s \<and> \<not> autoStopRequested s \<and> c < m \<and> i < int (length (prospects s)) \<Longrightarrow>
   snd (auto_turn (env i) m d c i s) = Continue \<Longrightarrow>
     auto_loop env m d c i s = auto_loop env m d (c + 1) (i + 1) (fst (auto_turn (env i) m d c i s))"
  by (subst auto_loop.simps) simp

lemma auto_loop_facts:
  "trace (auto_loop env m d c i s) = trace s @ events_since s (auto_loop env m d c i s) \<and>
   fail_fast (events_since s (auto_loop env m d c i s)) \<and>
   (events_since s (auto_loop env m d c i s) \<noteq> [] \<and>
    is_failure (last (events_since s (auto_loop env m d c i s))) \<longrightarrow>
      autoOut (auto_loop env m d c i s)
        = Some (failure_message (last (events_since s (auto_loop env m d c i s))), False)) \<and>
   int (length (filter is_send (events_since s (auto_loop env m d c i s)))) \<le> max 0 (m - c) \<and>
   int (length (filter is_send (events_since s (auto_loop env m d c i s))))
      \<le> max 0 (int (length (prospects s)) - i) \<and>
   prospects (auto_loop env m d c i s) = prospects s"
proof (induction env m d c i s rule: auto_loop.induct)
  case (1 env m d c i s)
  let ?t = "auto_turn (env i) m d c i s"
  define s1 where "s1 = fst ?t"
  define e1 where "e1 = events_since s s1"
  have t1: "trace s1 = trace s @ e1"
    unfolding e1_def s1_def by (rule auto_turn_trace)
  have n1: "length (filter is_send e1) \<le> 1"
    unfolding e1_def s1_def by (rule auto_turn_sends)
  have ne1: "e1 \<noteq> []"
    unfolding e1_def s1_def by (rule auto_turn_nonempty)
  have p1: "prospects s1 = prospects s"
    unfolding s1_def by simp
  show ?case
  proof (cases "autoRunning s \<and> \<not> autoStopRequested s \<and> c < m \<and> i < int (length (prospects s))")
    case False
    then show ?thesis by (simp add: auto_loop_stop)
  next
    case True
    show ?thesis
    proof (cases "snd ?t")
      case Break
      have res: "auto_loop env m d c i s = s1"
        unfolding s1_def using True Break by (rule auto_loop_break)
      have ff: "fail_fast e1"
        unfolding e1_def s1_def using Break by (rule auto_turn_break)
      have msg: "is_failure (last e1) \<Longrightarrow> autoOut s1 = Some (failure_message (last e1), False)"
        unfolding e1_def s1_def by (rule auto_turn_message)
      have es: "events_since s s1 = e1" by (simp add: e1_def)
      from True n1 show ?thesis
        unfolding res es using t1 ff msg p1 by auto
    next
      case Continue
      have res: "auto_loop env m d c i s = auto_loop env m d (c + 1) (i + 1) s1"
        unfolding s1_def using True Continue by (rule auto_loop_continue)
      define s2 where "s2 = auto_loop env m d (c + 1) (i + 1) s1"
      define e2 where "e2 = events_since s1 s2"
      note IH = "1.IH" [OF True Continue, folded s1_def, folded s2_def, folded e2_def]
      have ok1: "\<forall>x \<in> set e1. \<not> is_failure x"
        unfolding e1_def s1_def using Continue by (rule auto_turn_continue)
      from IH t1 have t2: "trace s2 = trace s @ e1 @ e2" by simp
      then have es: "events_since s s2 = e1 @ e2" by (simp add: events_since_def)
      have ff: "fail_fast (e1 @ e2)"
        using IH ok1 by (simp add: fail_fast_append)
      have msg: "is_failure (last (e1 @ e2)) \<Longrightarrow>
          autoOut s2 = Some (failure_message (last (e1 @ e2)), False)"
      proof (cases "e2 = []")
        case True
        assume "is_failure (last (e1 @ e2))"
        with True ne1 ok1 show ?thesis by (metis append_Nil2 last_in_set)
      next
        case False
        assume "is_failure (last (e1 @ e2))"
        with False IH show ?thesis by simp
      qed
      have cnt: "int (length (filter is_send (e1 @ e2))) \<le> max 0 (m - c)"
        "int (length (filter is_send (e1 @ e2))) \<le> max 0 (int (length (prospects s)) - i)"
        using IH n1 True p1 by auto
      show ?thesis
        unfolding res s2_def [symmetric] es
        using t2 ff msg cnt IH p1 by simp
    qed
  qed
qed

text \<open>The state in which \<^verbatim>\<open>runFullAutomationQueue\<close> enters its loop.\<close>

definition loop_entry :: "page \<Rightarrow> page" where
  "loop_entry s =
     (let s1 = (if playRunning s
                then s\<lparr>playRunning := False, awaitingApproval := False, approveDisabled := True\<rparr>
                else s);
          s2 = (if activeIndex s1 < 0 then setActive s1 0 else s1);
          s3 = s2\<lparr>autoRunning := True, autoStopRequested := False\<rparr>
      in s3\<lparr>autoOut := Some (AutoStarted (activeIndex s3 + 1) (int (length (prospects s3))), True)\<rparr>)"

lemma loop_entry_frame [simp]:
  "trace (loop_entry s) = trace s" "prospects (loop_entry s) = prospects s"
  "activeIndex (loop_entry s) = (if activeIndex s < 0 then 0 else activeIndex s)"
  by (simp_all add: loop_entry_def Let_def)

lemma runFullAutomationQueue_loop:
  "prospects s \<noteq> [] \<Longrightarrow>
     runFullAutomationQueue s env =
       (let s5 = auto_loop env (auto_max (autoMaxBox s)) (auto_delay (autoDelayBox s)) 0
                   (if activeIndex s < 0 then 0 else activeIndex s) (loop_entry s);
            s6 = s5\<lparr>autoRunning := False, autoStopRequested := False\<rparr>
        in if autoOut s6 = None then s6\<lparr>autoOut := Some (AutoStopped, True)\<rparr> else s6)"
  by (simp add: runFullAutomationQueue_def loop_entry_def Let_def)

lemma run_trace:
  "prospects s \<noteq> [] \<Longrightarrow>
     trace (runFullAutomationQueue s env) =
       trace (auto_loop env (auto_max (autoMaxBox s)) (auto_delay (autoDelayBox s)) 0
                   (if activeIndex s < 0 then 0 else activeIndex s) (loop_entry s))"
  by (simp add: runFullAutomationQueue_loop Let_def)

lemma run_events:
  "prospects s \<noteq> [] \<Longrightarrow>
     events_since s (runFullAutomationQueue s env) =
       events_since (loop_entry s)
         (auto_loop env (auto_max (autoMaxBox s)) (auto_delay (autoDelayBox s)) 0
                   (if activeIndex s < 0 then 0 else activeIndex s) (loop_entry s))"
  by (simp add: events_since_def run_trace)



lemma run_no_prospects:
  "prospects s = [] \<Longrightarrow> events_since s (runFullAutomationQueue s env) = []"
  by (simp add: runFullAutomationQueue_def events_since_def)

fun is_delivered :: "event \<Rightarrow> bool" where
  "is_delivered (Sent t s b SendOk) = True"
| "is_delivered e = False"

lemma delivered_le_sends: "length (filter is_delivered evs) \<le> length (filter is_send evs)"
proof (induction evs)
  case Nil
  then show ?case by simp
next
  case (Cons e evs)
  then show ?case by (cases e rule: is_delivered.cases) auto
qed

lemma auto_max_range: "1 \<le> auto_max text \<and> auto_max text \<le> 15"
  by (simp add: auto_max_def Let_def)

lemma auto_delay_range: "2 \<le> auto_delay text \<and> auto_delay text \<le> 600"
  by (simp add: auto_delay_def Let_def)

lemma parse_15: "js_parseInt ''15'' = Some 15"
  by code_simp

lemma parse_12: "js_parseInt ''12'' = Some 12"
  by code_simp

lemma parse_empty: "js_parseInt [] = None"
  by (simp add: js_parseInt_def)

lemma auto_max_eq:
  "auto_max text = (case js_parseInt text of None \<Rightarrow> 15 | Some v \<Rightarrow> max 1 (min 15 v))"
  by (cases "text = []") (auto simp: auto_max_def Let_def parse_15 parse_empty split: option.splits)

lemma auto_delay_eq:
  "auto_delay text = (case js_parseInt text of None \<Rightarrow> 12 | Some v \<Rightarrow> max 2 (min 600 v))"
  by (cases "text = []") (auto simp: auto_delay_def Let_def parse_12 parse_empty split: option.splits)

text \<open>
  Claim C2. In every run of the queue the requests to \<^verbatim>\<open>/send\<close>, and so the successful
  ones, are at most \<^verbatim>\<open>maxSends\<close>, which is the number in the field clamped into 1 to 15
  (15 when the field holds no number), and at most the number of prospects from the start
  index on; \<^verbatim>\<open>delaySec\<close> is the number in its field clamped into 2 to 600 (12 when it
  holds no number).
\<close>

theorem queue_send_bound:
  "let s' = runFullAutomationQueue s env;
       evs = events_since s s';
       maxSends = auto_max (autoMaxBox s);
       delaySec = auto_delay (autoDelayBox s);
       start = (if activeIndex s < 0 then 0 else activeIndex s)
   in length (filter is_delivered evs) \<le> length (filter is_send evs) \<and>
      int (length (filter is_send evs)) \<le> maxSends \<and>
      int (length (filter is_send evs)) \<le> max 0 (int (length (prospects s)) - start) \<and>
      1 \<le> maxSends \<and> maxSends \<le> 15 \<and> 2 \<le> delaySec \<and> delaySec \<le> 600 \<and>
      maxSends = (case js_parseInt (autoMaxBox s) of None \<Rightarrow> 15 | Some v \<Rightarrow> max 1 (min 15 v)) \<and>
      delaySec = (case js_parseInt (autoDelayBox s) of None \<Rightarrow> 12 | Some v \<Rightarrow> max 2 (min 600 v))"
proof -
  let ?evs = "events_since s (runFullAutomationQueue s env)"
  let ?start = "if activeIndex s < 0 then 0 else activeIndex s"
  have bound: "int (length (filter is_send ?evs)) \<le> max 0 (auto_max (autoMaxBox s) - 0) \<and>
      int (length (filter is_send ?evs)) \<le> max 0 (int (length (prospects s)) - ?start)"
  proof (cases "prospects s = []")
    case True
    then show ?thesis by (simp add: run_no_prospects)
  next
    case False
    note f = auto_loop_facts [of env "auto_max (autoMaxBox s)" "auto_delay (autoDelayBox s)" 0
        ?start "loop_entry s"]
    from f show ?thesis unfolding run_events [OF False] by simp
  qed
  with auto_max_range [of "autoMaxBox s"]
  have sends: "int (length (filter is_send ?evs)) \<le> auto_max (autoMaxBox s)"
    and prospects: "int (length (filter is_send ?evs)) \<le> max 0 (int (length (prospects s)) - ?start)"
    by simp_all
  show ?thesis
    unfolding Let_def
    using delivered_le_sends [of ?evs] sends prospects
      auto_max_range [of "autoMaxBox s"] auto_delay_range [of "autoDelayBox s"]
      auto_max_eq [of "autoMaxBox s"] auto_delay_eq [of "autoDelayBox s"]
    by blast
qed


subsection \<open>Three prospects, run\<close>

definition demo_page :: page where
  "demo_page =
     \<lparr> prospects = [\<lparr>p_name = ''Jane'', p_email = ''jane@biz.com''\<rparr>,
                    \<lparr>p_name = [], p_email = ''bob@biz.com''\<rparr>,
                    \<lparr>p_name = ''Ann'', p_email = ''ann@biz.com''\<rparr>],
       activeIndex = 0, playRunning = False, awaitingApproval = False, approveDisabled = True,
       autoRunning = False, autoStopRequested = False,
       promptBox = [], toBox = [], subjectBox = [], bodyBox = [],
       autoMaxBox = ''2'', autoDelayBox = ''2'',
       aiOut = None, sendOut = None, plistMsg = None, autoOut = None, trace = [] \<rparr>"

definition all_good :: "int \<Rightarrow> turn_env" where
  "all_good i =
     \<lparr> gen_reply = GenerateOk \<lparr>d_to = [], d_subject = ''Hi'', d_body = ''Hello''\<rparr>,
       sent_reply = SendOk, hist_reply = HistoryItems, stop_click = None \<rparr>"



text \<open>
  The theorem of C2 at three prospects with 2 in both fields, every request answered well:
  two sends, the message that the maximum is reached, the cursor at the second prospect.
\<close>

theorem queue_send_bound_witness:
  "length (filter is_send (events_since demo_page (runFullAutomationQueue demo_page all_good))) = 2 \<and>
   length (filter is_delivered (events_since demo_page (runFullAutomationQueue demo_page all_good))) = 2 \<and>
   auto_max (autoMaxBox demo_page) = 2 \<and> auto_delay (autoDelayBox demo_page) = 2 \<and>
   autoOut (runFullAutomationQueue demo_page all_good) = Some (DoneMaxSends 2, True) \<and>
   activeIndex (runFullAutomationQueue demo_page all_good) = 1 \<and>
   js_parseInt ''abc'' = None \<and> auto_max ''abc'' = 15 \<and> auto_delay ''abc'' = 12 \<and>
   js_parseInt '' -12abc'' = Some (- 12) \<and> auto_max ''-12'' = 1 \<and> auto_max ''99'' = 15 \<and>
   auto_max ''7'' = 7 \<and> auto_delay ''1e3'' = 2 \<and> auto_delay ''45'' = 45 \<and> auto_delay ''9999'' = 600"
proof -
  have a: "length (filter is_send (events_since demo_page (runFullAutomationQueue demo_page all_good))) = 2"
    by code_simp
  have b: "length (filter is_delivered (events_since demo_page (runFullAutomationQueue demo_page all_good))) = 2"
    by code_simp
  have c1: "auto_max (autoMaxBox demo_page) = 2" by code_simp
  have c2: "auto_delay (autoDelayBox demo_page) = 2" by code_simp
  have d1: "autoOut (runFullAutomationQueue demo_page all_good) = Some (DoneMaxSends 2, True)"
    by code_simp
  have d2: "activeIndex (runFullAutomationQueue demo_page all_good) = 1"
    by code_simp
  have e1: "js_parseInt ''abc'' = None" by code_simp
  have e2: "auto_max ''abc'' = 15" by code_simp
  have e3: "auto_delay ''abc'' = 12" by code_simp
  have e4: "js_parseInt '' -12abc'' = Some (- 12)" by code_simp
  have e5: "auto_max ''-12'' = 1" by code_simp
  have e6: "auto_max ''99'' = 15" by code_simp
  have e7: "auto_max ''7'' = 7" by code_simp
  have e8: "auto_delay ''1e3'' = 2" by code_simp
  have e9: "auto_delay ''45'' = 45" by code_simp
  have e10: "auto_delay ''9999'' = 600" by code_simp
  from queue_send_bound [of demo_page all_good]
  have "int (length (filter is_send (events_since demo_page (runFullAutomationQueue demo_page all_good))))
          \<le> auto_max (autoMaxBox demo_page)"
    by (simp add: Let_def)
  with a b c1 c2 d1 d2 e1 e2 e3 e4 e5 e6 e7 e8 e9 e10 show ?thesis by simp
qed



end
